theory Spec2Isabelle
  imports Complex_Main "HOL-Library.AList" "HOL-Library.Multiset"
    "HOL-Library.Char_ord" "HOL-Library.List_Lexorder"
begin

section \<open>Python values and errors\<close>

text \<open>
  The embedding follows the Python sources \<^verbatim>\<open>model_manager.py\<close>,
  \<^verbatim>\<open>performance_evaluator.py\<close> and \<^verbatim>\<open>smart_load_balancer_server.py\<close>.
  Python \<^verbatim>\<open>int\<close> is \<open>int\<close>, \<^verbatim>\<open>str\<close> is \<open>string\<close>, a \<^verbatim>\<open>dict\<close> is an
  association list in insertion order whose keys are distinct, and \<^verbatim>\<open>float\<close> is
  modelled by \<open>real\<close>, without NaN and infinities: the sources only compare, add,
  scale and clip floats, and the concrete inputs evaluated below are exactly representable
  in binary floating point.
  An exception that the source can raise is a value \<open>Inl e\<close> of the result.
\<close>

datatype py_error = IndexError | AttributeError

section \<open>Model catalog: \<^verbatim>\<open>ModelInfo\<close>\<close>

text \<open>
  The dataclass \<^verbatim>\<open>ModelInfo\<close> of \<^verbatim>\<open>model_manager.py\<close> declares exactly four
  fields.
\<close>

record ModelInfo =
  name :: string
  parameters :: int
  size_gb :: real
  complexity_score :: int

text \<open>\<^verbatim>\<open>ModelInfo.__post_init__\<close>: the rank is computed only when the field was given as 0.\<close>

definition post_init :: "ModelInfo \<Rightarrow> ModelInfo" where
  "post_init self =
     (if complexity_score self = 0 then
        (if parameters self \<ge> 70000000000 then self\<lparr>complexity_score := 10\<rparr>
         else if parameters self \<ge> 30000000000 then self\<lparr>complexity_score := 9\<rparr>
         else if parameters self \<ge> 13000000000 then self\<lparr>complexity_score := 8\<rparr>
         else if parameters self \<ge> 8000000000 then self\<lparr>complexity_score := 7\<rparr>
         else if parameters self \<ge> 7000000000 then self\<lparr>complexity_score := 6\<rparr>
         else if parameters self \<ge> 3000000000 then self\<lparr>complexity_score := 5\<rparr>
         else if parameters self \<ge> 1000000000 then self\<lparr>complexity_score := 4\<rparr>
         else if parameters self \<ge> 500000000 then self\<lparr>complexity_score := 3\<rparr>
         else if parameters self \<ge> 100000000 then self\<lparr>complexity_score := 2\<rparr>
         else self\<lparr>complexity_score := 1\<rparr>)
      else self)"

text \<open>The constructor call \<^verbatim>\<open>ModelInfo(name, parameters, size_gb, complexity_score)\<close>.\<close>

definition new_ModelInfo :: "string \<Rightarrow> int \<Rightarrow> real \<Rightarrow> int \<Rightarrow> ModelInfo" where
  "new_ModelInfo n p s c =
     post_init \<lparr>name = n, parameters = p, size_gb = s, complexity_score = c\<rparr>"

text \<open>
  The step function as the specification tabulates it: the rank of the first row whose
  threshold the parameter count reaches, and 1 when it reaches none.
\<close>

definition spec_rank_table :: "(int \<times> int) list" where
  "spec_rank_table =
     [(70 * 10 ^ 9, 10), (30 * 10 ^ 9, 9), (13 * 10 ^ 9, 8), (8 * 10 ^ 9, 7), (7 * 10 ^ 9, 6),
      (3 * 10 ^ 9, 5), (1 * 10 ^ 9, 4), (500 * 10 ^ 6, 3), (100 * 10 ^ 6, 2)]"

fun spec_rank_in :: "(int \<times> int) list \<Rightarrow> int \<Rightarrow> int" where
  "spec_rank_in [] p = 1"
| "spec_rank_in ((t, r) # rows) p = (if p \<ge> t then r else spec_rank_in rows p)"

definition spec_rank :: "int \<Rightarrow> int" where
  "spec_rank p = spec_rank_in spec_rank_table p"

text \<open>\<^verbatim>\<open>SmartModelManager._use_default_models\<close>.\<close>

definition default_models :: "ModelInfo list" where
  "default_models =
     [new_ModelInfo ''llama3.2:1b'' 1000000000 2 0,
      new_ModelInfo ''llama3.2:3b'' 3000000000 6 0,
      new_ModelInfo ''llama3.1:8b'' 8000000000 16 0]"

text \<open>\<^verbatim>\<open>SmartModelManager.get_model_info\<close>: the first descriptor with the given name.\<close>

fun get_model_info :: "ModelInfo list \<Rightarrow> string \<Rightarrow> ModelInfo option" where
  "get_model_info [] model_name = None"
| "get_model_info (model # rest) model_name =
     (if name model = model_name then Some model else get_model_info rest model_name)"

section \<open>Performance evaluator\<close>

record HardwareSpecs =
  cpu_cores :: int
  cpu_frequency_ghz :: real
  ram_gb :: real
  gpu_info :: string
  gpu_memory_gb :: real
  os_info :: string
  performance_score :: real










section \<open>Worker registry\<close>

text \<open>
  One entry of the dictionary \<^verbatim>\<open>SmartLoadBalancerServer.clients\<close>. The registry is
  the association list of worker ID and entry, in insertion order.
\<close>

record client_info =
  hostname :: string
  ip_address :: string
  specs :: HardwareSpecs
  last_seen :: real
  assigned_model :: "string option"
  group :: "nat option"

type_synonym registry = "(string \<times> client_info) list"

type_synonym assignment = "(string \<times> string) list"

definition score :: "client_info \<Rightarrow> real" where
  "score info = performance_score (specs info)"

text \<open>The score a registry records for a worker ID (0 for an unknown ID).\<close>

definition score_of :: "registry \<Rightarrow> string \<Rightarrow> real" where
  "score_of clients cid = (case map_of clients cid of Some info \<Rightarrow> score info | None \<Rightarrow> 0)"

section \<open>Assignment engine\<close>

text \<open>
  \<^verbatim>\<open>sorted(xs, key=k, reverse=True)\<close>: CPython reverses the list, sorts it stably in
  ascending key order, and reverses the result, so that equal keys keep the order they
  had in \<open>xs\<close>. \<open>sort_key\<close> is a stable insertion sort.
\<close>

definition sorted_reverse :: "('a \<Rightarrow> 'k::linorder) \<Rightarrow> 'a list \<Rightarrow> 'a list" where
  "sorted_reverse k xs = rev (sort_key k (rev xs))"

text \<open>Lines 197 to 199 of \<^verbatim>\<open>assign_models_to_clients\<close>.\<close>

definition sorted_clients :: "registry \<Rightarrow> registry" where
  "sorted_clients clients = sorted_reverse (\<lambda>x. score (snd x)) clients"

text \<open>
  The loop of \<^verbatim>\<open>_create_performance_groups\<close> over \<^verbatim>\<open>range(num_groups)\<close>; the
  slice \<^verbatim>\<open>sorted_clients[start_idx:end_idx]\<close> is \<open>take\<close> after \<open>drop\<close>.
\<close>

fun groups_loop :: "registry \<Rightarrow> nat \<Rightarrow> nat \<Rightarrow> nat list \<Rightarrow> nat \<Rightarrow> string list list" where
  "groups_loop sorted_cs base_size extra_clients [] start_idx = []"
| "groups_loop sorted_cs base_size extra_clients (group_idx # rest) start_idx =
     (let group_size = base_size + (if group_idx < extra_clients then 1 else 0);
          end_idx = start_idx + group_size;
          group_clients = map fst (take (end_idx - start_idx) (drop start_idx sorted_cs))
      in group_clients # groups_loop sorted_cs base_size extra_clients rest end_idx)"

definition create_performance_groups :: "registry \<Rightarrow> nat \<Rightarrow> string list list" where
  "create_performance_groups sorted_cs num_groups =
     (if num_groups \<le> 0 \<or> sorted_cs = [] then []
      else
        let total_clients = length sorted_cs in
        if total_clients \<le> num_groups then map (\<lambda>x. [fst x]) sorted_cs
        else
          groups_loop sorted_cs (total_clients div num_groups) (total_clients mod num_groups)
            [0..<num_groups] 0)"

text \<open>
  \<^verbatim>\<open>random.choice(seq)\<close> returns \<^verbatim>\<open>seq[randbelow(len(seq))]\<close> and raises
  \<^verbatim>\<open>IndexError\<close> on an empty sequence. The generator is a parameter \<open>rnd\<close>: its
  draw for the group with index \<open>i\<close> is \<open>rnd i\<close>, reduced below the length, so that
  every element of the group is the choice of some generator.
\<close>

definition random_choice :: "nat \<Rightarrow> 'a list \<Rightarrow> py_error + 'a" where
  "random_choice r xs = (if xs = [] then Inl IndexError else Inr (xs ! (r mod length xs)))"

text \<open>
  The loop over \<^verbatim>\<open>enumerate(groups)\<close>; a dictionary store \<^verbatim>\<open>d[k] = v\<close> is
  \<open>AList.update\<close>, which overwrites in place or appends.
\<close>

fun select_loop ::
  "(nat \<Rightarrow> nat) \<Rightarrow> ModelInfo list \<Rightarrow> nat \<Rightarrow> string list list \<Rightarrow> assignment
     \<Rightarrow> py_error + assignment" where
  "select_loop rnd sorted_models group_idx [] assignments = Inr assignments"
| "select_loop rnd sorted_models group_idx (client_group # rest) assignments =
     (if group_idx < length sorted_models then
        (case random_choice (rnd group_idx) client_group of
           Inl e \<Rightarrow> Inl e
         | Inr selected_client \<Rightarrow>
             select_loop rnd sorted_models (group_idx + 1) rest
               (AList.update selected_client (name (sorted_models ! group_idx)) assignments))
      else select_loop rnd sorted_models (group_idx + 1) rest assignments)"

text \<open>The round-robin loop over \<^verbatim>\<open>enumerate(remaining_clients)\<close>.\<close>

fun round_robin :: "ModelInfo list \<Rightarrow> nat \<Rightarrow> string list \<Rightarrow> assignment \<Rightarrow> assignment" where
  "round_robin available i [] assignments = assignments"
| "round_robin available i (client_id # rest) assignments =
     round_robin available (i + 1) rest
       (AList.update client_id (name (available ! (i mod length available))) assignments)"

text \<open>
  The groups and the catalog order that \<^verbatim>\<open>assign_models_to_clients\<close> computes in its
  local variables \<^verbatim>\<open>groups\<close> and \<^verbatim>\<open>sorted_models\<close>.
\<close>

definition performance_groups :: "ModelInfo list \<Rightarrow> registry \<Rightarrow> string list list" where
  "performance_groups available clients =
     create_performance_groups (sorted_clients clients) (length available)"

definition sorted_models :: "ModelInfo list \<Rightarrow> ModelInfo list" where
  "sorted_models available = sorted_reverse complexity_score available"

text \<open>
  \<^verbatim>\<open>SmartModelManager.assign_models_to_clients\<close>, with \<^verbatim>\<open>self.available_models\<close> as
  the argument \<open>available\<close>. The method also stores its result in
  \<^verbatim>\<open>self.model_assignments\<close>, which only the log summary reads.
\<close>

definition assign_models_to_clients ::
  "(nat \<Rightarrow> nat) \<Rightarrow> ModelInfo list \<Rightarrow> registry \<Rightarrow> py_error + assignment" where
  "assign_models_to_clients rnd available clients =
     (if clients = [] then Inr []
      else if available = [] then Inr []
      else
        (case select_loop rnd (sorted_models available) 0
                (performance_groups available clients) [] of
           Inl e \<Rightarrow> Inl e
         | Inr assignments \<Rightarrow>
             let assigned_clients = set (map fst assignments);
                 remaining_clients =
                   filter (\<lambda>cid. cid \<notin> assigned_clients) (map fst (sorted_clients clients))
             in Inr (round_robin available 0 remaining_clients assignments)))"

section \<open>RPC messages\<close>

text \<open>
  The messages of \<^verbatim>\<open>load_balancer_pb2\<close>, with the fields that the server code reads
  and writes. Field names that two messages share carry a prefix here: \<open>pb_\<close> for the
  wire form of \<^verbatim>\<open>ModelInfo\<close>, \<open>req_\<close> for the registration request, \<open>reg_\<close> for
  \<^verbatim>\<open>RegistrationResponse\<close>, \<open>ai_\<close> for \<^verbatim>\<open>AIRequest\<close> and \<open>resp_\<close> for
  \<^verbatim>\<open>AIResponse\<close>.
\<close>

record ModelInfo_pb =
  pb_name :: string
  pb_parameters :: int
  pb_size_gb :: real
  pb_complexity_score :: int
  pb_supports_vision :: bool

definition empty_ModelInfo_pb :: ModelInfo_pb where
  "empty_ModelInfo_pb =
     \<lparr>pb_name = [], pb_parameters = 0, pb_size_gb = 0, pb_complexity_score = 0,
      pb_supports_vision = False\<rparr>"

record ClientInfo =
  client_id :: string
  req_hostname :: string
  req_ip_address :: string
  req_specs :: HardwareSpecs

record RegistrationResponse =
  reg_success :: bool
  reg_message :: string
  reg_assigned_model :: string
  reg_model_info :: ModelInfo_pb
  total_clients :: nat
  client_group :: int

record AIRequest =
  request_id :: string
  prompt :: string
  ai_assigned_model :: string
  timestamp :: int
  images :: "string list"

record AIResponse =
  resp_request_id :: string
  success :: bool
  response_text :: string
  processing_time :: real
  resp_client_id :: string
  model_used :: string
  resp_timestamp :: int

section \<open>The coordinator\<close>

text \<open>
  The state of \<^verbatim>\<open>SmartLoadBalancerServer\<close>: the registry \<^verbatim>\<open>self.clients\<close> and the
  catalog \<^verbatim>\<open>self.model_manager.available_models\<close>.
\<close>

record server =
  clients :: registry
  available_models :: "ModelInfo list"

text \<open>
  The attribute read \<^verbatim>\<open>model_info.supports_vision\<close> on a \<^verbatim>\<open>ModelInfo\<close> of
  \<^verbatim>\<open>model_manager.py\<close>. The dataclass declares \<^verbatim>\<open>name\<close>, \<^verbatim>\<open>parameters\<close>,
  \<^verbatim>\<open>size_gb\<close> and \<^verbatim>\<open>complexity_score\<close> only, and no statement of the sources
  sets another attribute on an instance, so the read raises \<^verbatim>\<open>AttributeError\<close>.
\<close>

definition supports_vision :: "ModelInfo \<Rightarrow> py_error + bool" where
  "supports_vision model_info = Inl AttributeError"

text \<open>\<^verbatim>\<open>str(e)\<close> for the two exceptions.\<close>

fun str_error :: "py_error \<Rightarrow> string" where
  "str_error IndexError = ''Cannot choose from an empty sequence''"
| "str_error AttributeError = [CHR 0x27] @ ''ModelInfo'' @ [CHR 0x27] @ '' object has no attribute ''
     @ [CHR 0x27] @ ''supports_vision'' @ [CHR 0x27]"

text \<open>The response of the \<^verbatim>\<open>except\<close> branch of \<^verbatim>\<open>RegisterClient\<close>.\<close>

definition registration_failed :: "registry \<Rightarrow> py_error \<Rightarrow> RegistrationResponse" where
  "registration_failed cs e =
     \<lparr>reg_success = False, reg_message = ''Registration failed: '' @ str_error e,
      reg_assigned_model = [], reg_model_info = empty_ModelInfo_pb,
      total_clients = length cs, client_group = 0\<rparr>"

text \<open>
  The loop that writes the assignments back:
  \<^verbatim>\<open>if cid in self.clients: self.clients[cid]['assigned_model'] = model_name\<close>.
\<close>

definition apply_assignments :: "assignment \<Rightarrow> registry \<Rightarrow> registry" where
  "apply_assignments assignments cs =
     fold (\<lambda>(cid, model_name). AList.map_entry cid (\<lambda>info. info\<lparr>assigned_model := Some model_name\<rparr>))
       assignments cs"

text \<open>
  \<^verbatim>\<open>SmartLoadBalancerServer.RegisterClient\<close>. The handler runs under the registry
  lock; \<open>rnd\<close> is the random generator and \<open>now\<close> the clock. An exception leaves the
  changes made before it in place and yields the failure response.
\<close>

definition RegisterClient ::
  "(nat \<Rightarrow> nat) \<Rightarrow> real \<Rightarrow> server \<Rightarrow> ClientInfo \<Rightarrow> server \<times> RegistrationResponse" where
  "RegisterClient rnd now self request =
     (let cid = client_id request;
          clients1 = AList.update cid
            \<lparr>hostname = req_hostname request, ip_address = req_ip_address request,
             specs = req_specs request, last_seen = now, assigned_model = None, group = None\<rparr>
            (clients self)
      in case assign_models_to_clients rnd (available_models self) clients1 of
           Inl e \<Rightarrow> (self\<lparr>clients := clients1\<rparr>, registration_failed clients1 e)
         | Inr assignments \<Rightarrow>
             let clients2 = apply_assignments assignments clients1;
                 self2 = self\<lparr>clients := clients2\<rparr>;
                 assigned = (case map_of assignments cid of
                               Some m \<Rightarrow> m | None \<Rightarrow> ''llama3.2:3b'');
                 registered = (\<lambda>model_pb.
                   \<lparr>reg_success = True,
                    reg_message = ''Registered successfully. Smart assignment: '' @ assigned,
                    reg_assigned_model = assigned, reg_model_info = model_pb,
                    total_clients = length clients2, client_group = 1\<rparr>)
             in case get_model_info (available_models self) assigned of
                  None \<Rightarrow> (self2, registered empty_ModelInfo_pb)
                | Some model_info \<Rightarrow>
                    (case supports_vision model_info of
                       Inl e \<Rightarrow> (self2, registration_failed clients2 e)
                     | Inr vision \<Rightarrow>
                         (self2, registered
                            \<lparr>pb_name = name model_info, pb_parameters = parameters model_info,
                             pb_size_gb = size_gb model_info,
                             pb_complexity_score = complexity_score model_info,
                             pb_supports_vision = vision\<rparr>)))"

section \<open>Dispatch engine\<close>

text \<open>
  What lies outside the coordinator is a parameter: the request ID drawn by
  \<^verbatim>\<open>uuid.uuid4\<close>, the clock, the workers behind the gRPC stub (a call returns a
  response or raises), the order in which the worker threads finish, the local
  \<^verbatim>\<open>ollama run\<close> (its stripped output when it exits with 0 and prints something), and
  the two text layouts built with f-strings.
\<close>

datatype rpc_result = RpcError | Reply AIResponse

record response_entry =
  r_client_id :: string
  r_model :: "string option"
  r_response :: string
  r_processing_time :: real
  r_performance_score :: real

record environment =
  uuid4 :: string
  time_now :: int
  stub_ProcessAIRequest :: "string \<Rightarrow> AIRequest \<Rightarrow> rpc_result"
  completion_order :: "registry \<Rightarrow> registry"
  ollama_run :: "string \<Rightarrow> string \<Rightarrow> string option"
  summary_prompt :: "ModelInfo list \<Rightarrow> response_entry list \<Rightarrow> string"
  format_final_response :: "ModelInfo list \<Rightarrow> response_entry list \<Rightarrow> string \<Rightarrow> string \<Rightarrow> string"

text \<open>The two constant results; the cross mark U+274C is its three UTF-8 bytes.\<close>

definition cross_mark :: string where
  "cross_mark = [CHR 0xE2, CHR 0x9D, CHR 0x8C]"

definition no_clients_message :: string where
  "no_clients_message = cross_mark @ '' No clients connected. Please connect clients first.''"

definition no_successful_responses_message :: string where
  "no_successful_responses_message = cross_mark @ '' No successful responses from clients.''"

text \<open>
  Lines 291 and 292 of \<^verbatim>\<open>process_client_request\<close>: the lookup of the descriptor (no
  descriptor is named \<^verbatim>\<open>None\<close>) and the flag.
\<close>

definition vision_flag :: "ModelInfo list \<Rightarrow> client_info \<Rightarrow> py_error + bool" where
  "vision_flag available client_info =
     (case (case assigned_model client_info of
              None \<Rightarrow> None | Some m \<Rightarrow> get_model_info available m) of
        Some model_info \<Rightarrow> supports_vision model_info
      | None \<Rightarrow> Inr False)"

text \<open>Line 295: \<^verbatim>\<open>images if (supports_vision and images) else []\<close>.\<close>

definition client_images :: "bool \<Rightarrow> string list \<Rightarrow> string list" where
  "client_images vision imgs = (if vision \<and> imgs \<noteq> [] then imgs else [])"

text \<open>
  The \<^verbatim>\<open>AIRequest\<close> a worker thread builds; a \<^verbatim>\<open>None\<close> given for a string field
  leaves the field at its default, the empty string.
\<close>

definition build_ai_request ::
  "environment \<Rightarrow> ModelInfo list \<Rightarrow> string \<Rightarrow> string list \<Rightarrow> client_info
     \<Rightarrow> py_error + AIRequest" where
  "build_ai_request env available query imgs client_info =
     (case vision_flag available client_info of
        Inl e \<Rightarrow> Inl e
      | Inr vision \<Rightarrow>
          Inr \<lparr>request_id = uuid4 env, prompt = query,
               ai_assigned_model = (case assigned_model client_info of None \<Rightarrow> [] | Some m \<Rightarrow> m),
               timestamp = time_now env, images = client_images vision imgs\<rparr>)"

text \<open>
  The thread body \<^verbatim>\<open>process_client_request\<close>: the entry it appends to
  \<^verbatim>\<open>responses\<close>, if any. Every exception ends in the \<^verbatim>\<open>except\<close> branch, which
  only logs.
\<close>

definition process_client_request ::
  "environment \<Rightarrow> ModelInfo list \<Rightarrow> string \<Rightarrow> string list \<Rightarrow> string \<times> client_info
     \<Rightarrow> response_entry option" where
  "process_client_request env available query imgs entry =
     (let cid = fst entry; client_info = snd entry
      in case build_ai_request env available query imgs client_info of
           Inl e \<Rightarrow> None
         | Inr ai_request \<Rightarrow>
             (case stub_ProcessAIRequest env (ip_address client_info @ '':50052'') ai_request of
                RpcError \<Rightarrow> None
              | Reply response \<Rightarrow>
                  if success response then
                    Some \<lparr>r_client_id = cid, r_model = assigned_model client_info,
                          r_response = response_text response,
                          r_processing_time = processing_time response,
                          r_performance_score = score client_info\<rparr>
                  else None))"

text \<open>\<^verbatim>\<open>max(xs, key=k)\<close> on a non-empty list: the first element with the largest key.\<close>

definition max_key :: "('a \<Rightarrow> int) \<Rightarrow> 'a list \<Rightarrow> 'a" where
  "max_key k xs = foldl (\<lambda>best x. if k x > k best then x else best) (hd xs) (tl xs)"

definition get_best_local_model :: "ModelInfo list \<Rightarrow> string" where
  "get_best_local_model available =
     (if ''gemma3:1b'' \<in> set (map name available) then ''gemma3:1b''
      else if available \<noteq> [] then name (max_key complexity_score available)
      else ''gemma3:1b'')"

text \<open>
  \<^verbatim>\<open>_create_intelligent_summary\<close>. An empty list makes \<^verbatim>\<open>sorted_responses[0]\<close>
  raise, which the outer \<^verbatim>\<open>except\<close> turns into the third layout.
\<close>

definition create_intelligent_summary ::
  "environment \<Rightarrow> ModelInfo list \<Rightarrow> response_entry list \<Rightarrow> string" where
  "create_intelligent_summary env available responses =
     (case sorted_reverse r_performance_score responses of
        [] \<Rightarrow> format_final_response env available responses ''Summary generation failed.'' ''Error''
      | best_client # others \<Rightarrow>
          (case ollama_run env (get_best_local_model available)
                  (summary_prompt env available responses) of
             Some summary \<Rightarrow>
               format_final_response env available responses summary ''Local Ollama''
           | None \<Rightarrow>
               format_final_response env available responses (r_response best_client)
                 ''Best Client''))"

text \<open>
  The list \<^verbatim>\<open>responses\<close> when the monitor has seen every thread finish: the entries
  of the threads in the order in which they finished.
\<close>

definition collect_responses ::
  "environment \<Rightarrow> server \<Rightarrow> string \<Rightarrow> string list \<Rightarrow> response_entry list" where
  "collect_responses env self query imgs =
     List.map_filter (process_client_request env (available_models self) query imgs)
       (completion_order env (clients self))"

text \<open>\<^verbatim>\<open>process_distributed_query(prompt, images=None)\<close>.\<close>

definition process_distributed_query ::
  "environment \<Rightarrow> server \<Rightarrow> string \<Rightarrow> string list option \<Rightarrow> string" where
  "process_distributed_query env self query imgs_opt =
     (if clients self = [] then no_clients_message
      else
        let imgs = (case imgs_opt of None \<Rightarrow> [] | Some given \<Rightarrow> given);
            responses = collect_responses env self query imgs
        in if responses = [] then no_successful_responses_message
           else create_intelligent_summary env (available_models self) responses)"

text \<open>
  The RPC handler \<^verbatim>\<open>ProcessRequest\<close>. Its \<^verbatim>\<open>except\<close> branch answers an exception
  of the call; \<^verbatim>\<open>process_distributed_query\<close> raises none here, it reports through
  the text it returns.
\<close>

definition ProcessRequest :: "environment \<Rightarrow> server \<Rightarrow> AIRequest \<Rightarrow> AIResponse" where
  "ProcessRequest env self request =
     (let query = prompt request;
          imgs = (if images request \<noteq> [] then images request else []);
          answer = process_distributed_query env self query (Some imgs)
      in \<lparr>resp_request_id = request_id request, success = True, response_text = answer,
          processing_time = 0, resp_client_id = ''server'', model_used = ''distributed'',
          resp_timestamp = time_now env\<rparr>)"

text \<open>
  A worker fails when its call raises or answers \<^verbatim>\<open>success=false\<close>, whatever the
  request; it returns success when the request built for it is answered with
  \<^verbatim>\<open>success=true\<close>.
\<close>

definition worker_fails :: "environment \<Rightarrow> string \<times> client_info \<Rightarrow> bool" where
  "worker_fails env entry =
     (\<forall>ai_request.
        case stub_ProcessAIRequest env (ip_address (snd entry) @ '':50052'') ai_request of
          RpcError \<Rightarrow> True
        | Reply response \<Rightarrow> \<not> success response)"

definition worker_returns_success ::
  "environment \<Rightarrow> ModelInfo list \<Rightarrow> string \<Rightarrow> string list \<Rightarrow> string \<times> client_info \<Rightarrow> bool" where
  "worker_returns_success env available query imgs entry =
     (case build_ai_request env available query imgs (snd entry) of
        Inl e \<Rightarrow> False
      | Inr ai_request \<Rightarrow>
          (case stub_ProcessAIRequest env (ip_address (snd entry) @ '':50052'') ai_request of
             RpcError \<Rightarrow> False
           | Reply response \<Rightarrow> success response))"

section \<open>Example inputs\<close>

definition example_specs :: "real \<Rightarrow> HardwareSpecs" where
  "example_specs s =
     \<lparr>cpu_cores = 4, cpu_frequency_ghz = 2.5, ram_gb = 8, gpu_info = ''Unknown GPU'',
      gpu_memory_gb = 0, os_info = ''Linux'', performance_score = s\<rparr>"

definition example_client :: "real \<Rightarrow> string option \<Rightarrow> client_info" where
  "example_client s m =
     \<lparr>hostname = ''node'', ip_address = ''10.0.0.1'', specs = example_specs s, last_seen = 0,
      assigned_model = m, group = None\<rparr>"

definition two_models :: "ModelInfo list" where
  "two_models =
     [new_ModelInfo ''small-1b'' 1000000000 2 0, new_ModelInfo ''large-8b'' 8000000000 16 0]"

definition three_clients :: registry where
  "three_clients =
     [(''A'', example_client 90 None), (''B'', example_client 80 None),
      (''C'', example_client 40 None)]"


definition example_response :: "bool \<Rightarrow> AIResponse" where
  "example_response ok =
     \<lparr>resp_request_id = ''r1'', success = ok, response_text = ''answer'', processing_time = 1,
      resp_client_id = ''A'', model_used = ''m'', resp_timestamp = 0\<rparr>"

definition example_env :: "rpc_result \<Rightarrow> environment" where
  "example_env outcome =
     \<lparr>uuid4 = ''r1'', time_now = 0, stub_ProcessAIRequest = (\<lambda>address ai_request. outcome),
      completion_order = (\<lambda>cs. cs), ollama_run = (\<lambda>model_name query. None),
      summary_prompt = (\<lambda>available responses. []),
      format_final_response = (\<lambda>available responses summary method. summary)\<rparr>"

definition example_request :: AIRequest where
  "example_request =
     \<lparr>request_id = ''r1'', prompt = ''hello'', ai_assigned_model = [], timestamp = 0,
      images = [''aW1hZ2U='']\<rparr>"

definition example_registration :: ClientInfo where
  "example_registration =
     \<lparr>client_id = ''A'', req_hostname = ''node'', req_ip_address = ''10.0.0.1'',
      req_specs = example_specs 90\<rparr>"

section \<open>Complexity rank\<close>

lemma post_init_rank:
  "complexity_score (post_init \<lparr>name = n, parameters = p, size_gb = s, complexity_score = 0\<rparr>)
     = spec_rank p"
  by (simp add: post_init_def spec_rank_def spec_rank_table_def)

lemma spec_rank_mono: "p1 \<le> p2 \<Longrightarrow> spec_rank p1 \<le> spec_rank p2"
  by (simp add: spec_rank_def spec_rank_table_def)

section \<open>Bounds of the performance score\<close>









section \<open>The descending stable sort\<close>

lemma mset_sorted_reverse: "mset (sorted_reverse k xs) = mset xs"
  by (simp add: sorted_reverse_def)

lemma set_sorted_reverse: "set (sorted_reverse k xs) = set xs"
  by (simp add: sorted_reverse_def)

lemma length_sorted_reverse: "length (sorted_reverse k xs) = length xs"
  by (simp add: sorted_reverse_def)

lemma sorted_reverse_descending: "sorted_wrt (\<lambda>x y. k x \<ge> k y) (sorted_reverse k xs)"
proof -
  have "sorted (map k (sort_key k (rev xs)))" by (rule sorted_sort_key)
  then have "sorted_wrt (\<lambda>x y. k x \<le> k y) (sort_key k (rev xs))" by (simp add: sorted_map)
  then show ?thesis by (simp add: sorted_reverse_def sorted_wrt_rev)
qed

lemma sorted_reverse_stable:
  "filter (\<lambda>x. k x = v) (sorted_reverse k xs) = filter (\<lambda>x. k x = v) xs"
proof -
  have "filter (\<lambda>x. k x = v) (sorted_reverse k xs)
          = rev (filter (\<lambda>x. k x = v) (sort_key k (rev xs)))"
    by (simp add: sorted_reverse_def rev_filter)
  also have "\<dots> = rev (filter (\<lambda>x. k x = v) (rev xs))" by (simp only: sort_key_stable)
  also have "\<dots> = filter (\<lambda>x. k x = v) xs" by (simp add: rev_filter)
  finally show ?thesis .
qed

lemma distinct_keys_sorted_reverse:
  "distinct (map f (sorted_reverse k xs)) = distinct (map f xs)"
proof -
  have "mset (map f (sorted_reverse k xs)) = mset (map f xs)"
    by (simp add: mset_sorted_reverse)
  then show ?thesis by (rule mset_eq_imp_distinct_iff)
qed

lemma descending_hd_Max:
  fixes k :: "'a \<Rightarrow> 'k::linorder"
  assumes "xs \<noteq> []" "sorted_wrt (\<lambda>x y. k x \<ge> k y) xs"
  shows "k (hd xs) = Max (k ` set xs)"
proof -
  obtain x rest where xs: "xs = x # rest" using assms(1) by (cases xs) auto
  have "\<forall>y\<in>set xs. k y \<le> k x" using assms(2) xs by auto
  then have "Max (k ` set xs) = k x" using xs by (intro Max_eqI) auto
  then show ?thesis using xs by simp
qed

section \<open>Performance groups\<close>

lemma length_groups_loop: "length (groups_loop sc b e is s) = length is"
  by (induction "is" arbitrary: s) (simp_all add: Let_def)

lemma concat_groups_loop:
  "concat (groups_loop sc b e is s)
     = map fst (take (sum_list (map (\<lambda>i. b + (if i < e then 1 else 0)) is)) (drop s sc))"
proof (induction "is" arbitrary: s)
  case Nil
  then show ?case by simp
next
  case (Cons i "is")
  show ?case
    by (simp add: Let_def Cons.IH take_add add.commute)
qed

lemma lengths_groups_loop:
  "s + sum_list (map (\<lambda>i. b + (if i < e then 1 else 0)) is) \<le> length sc \<Longrightarrow>
   map length (groups_loop sc b e is s) = map (\<lambda>i. b + (if i < e then 1 else 0)) is"
proof (induction "is" arbitrary: s)
  case Nil
  then show ?case by simp
next
  case (Cons i "is")
  let ?g = "b + (if i < e then 1 else 0)"
  have "(s + ?g) + sum_list (map (\<lambda>i. b + (if i < e then 1 else 0)) is) \<le> length sc"
    using Cons.prems by simp
  then have "map length (groups_loop sc b e is (s + ?g)) = map (\<lambda>i. b + (if i < e then 1 else 0)) is"
    by (rule Cons.IH)
  moreover have "?g \<le> length sc - s" using Cons.prems by simp
  ultimately show ?case by (simp add: Let_def min_absorb2)
qed

lemma sum_group_sizes:
  "sum_list (map (\<lambda>i. b + (if i < e then 1 else 0)) [0..<n]) = n * b + min e n"
  by (induction n) (auto simp: min_def)


lemma length_create_performance_groups:
  "0 < G \<Longrightarrow> length (create_performance_groups sc G) = min G (length sc)"
  by (auto simp: create_performance_groups_def Let_def length_groups_loop)

lemma concat_create_performance_groups:
  assumes "0 < G"
  shows "concat (create_performance_groups sc G) = map fst sc"
proof (cases "sc = [] \<or> length sc \<le> G")
  case True
  then show ?thesis using assms by (auto simp: create_performance_groups_def Let_def)
next
  case False
  have "G * (length sc div G) + min (length sc mod G) G = length sc"
    using assms by (simp add: min_absorb1)
  then show ?thesis
    using False assms
    by (simp add: create_performance_groups_def Let_def concat_groups_loop sum_group_sizes)
qed

lemma lengths_create_performance_groups:
  assumes "0 < G"
  shows "map length (create_performance_groups sc G)
           = map (\<lambda>i. length sc div G + (if i < length sc mod G then 1 else 0))
               [0..<min G (length sc)]"
proof (cases "sc = [] \<or> length sc \<le> G")
  case True
  then have small: "length sc \<le> G" by auto
  have one: "length sc div G + (if i < length sc mod G then 1 else 0) = 1" if "i < length sc" for i
  proof (cases "length sc < G")
    case True
    then show ?thesis using that by simp
  next
    case False
    then have "length sc = G" using small by simp
    then show ?thesis using assms by simp
  qed
  have "create_performance_groups sc G = map (\<lambda>x. [fst x]) sc"
    using small assms by (auto simp: create_performance_groups_def Let_def)
  then show ?thesis
    using small one by (intro nth_equalityI) (simp_all add: min_absorb2)
next
  case False
  have "0 + sum_list (map (\<lambda>i. length sc div G + (if i < length sc mod G then 1 else 0)) [0..<G])
          \<le> length sc"
    using assms by (simp add: sum_group_sizes min_absorb1)
  then have "map length (groups_loop sc (length sc div G) (length sc mod G) [0..<G] 0)
          = map (\<lambda>i. length sc div G + (if i < length sc mod G then 1 else 0)) [0..<G]"
    by (rule lengths_groups_loop)
  then show ?thesis
    using False assms by (simp add: create_performance_groups_def Let_def min_absorb1)
qed

lemma nth_length_create_performance_groups:
  assumes "0 < G" "i < length (create_performance_groups sc G)"
  shows "length (create_performance_groups sc G ! i)
           = length sc div G + (if i < length sc mod G then 1 else 0)"
proof -
  have i: "i < min G (length sc)" using assms by (simp add: length_create_performance_groups)
  have "length (create_performance_groups sc G ! i) = map length (create_performance_groups sc G) ! i"
    using assms(2) by simp
  also have "\<dots> = map (\<lambda>i. length sc div G + (if i < length sc mod G then 1 else 0))
               [0..<min G (length sc)] ! i"
    by (simp only: lengths_create_performance_groups [OF assms(1)])
  also have "\<dots> = length sc div G + (if i < length sc mod G then 1 else 0)"
    using i by simp
  finally show ?thesis .
qed

lemma ceil_div:
  assumes G: "0 < (G::nat)" and r: "0 < N mod G"
  shows "(N + G - 1) div G = N div G + 1"
proof -
  have split: "N = N mod G + N div G * G" by simp
  have "N + G - 1 = (N mod G - 1) + (N div G * G + G)"
    using r split by linarith
  then have eq: "N + G - 1 = (N mod G - 1) + (N div G + 1) * G" by simp
  have small: "N mod G - 1 < G" using G by (simp add: less_imp_diff_less)
  have "((N mod G - 1) + (N div G + 1) * G) div G = (N div G + 1) + (N mod G - 1) div G"
    by (rule div_mult_self1) (use G in simp)
  moreover have "(N mod G - 1) div G = 0" using small by simp
  ultimately show ?thesis using eq by simp
qed

lemma groups_nonempty:
  assumes "0 < G" "g \<in> set (create_performance_groups sc G)"
  shows "g \<noteq> []"
proof -
  obtain i where i: "i < length (create_performance_groups sc G)"
    and g: "g = create_performance_groups sc G ! i"
    using assms(2) by (auto simp: in_set_conv_nth)
  have len: "length g = length sc div G + (if i < length sc mod G then 1 else 0)"
    using nth_length_create_performance_groups [OF assms(1) i] g by simp
  have i': "i < min G (length sc)" using i assms(1) by (simp add: length_create_performance_groups)
  have "0 < length g"
  proof (cases "length sc < G")
    case True
    then show ?thesis using len i' by simp
  next
    case False
    then have "0 < length sc div G" using assms(1) by (simp add: div_greater_zero_iff)
    then show ?thesis using len by simp
  qed
  then show ?thesis by auto
qed

lemma between_groups:
  assumes "sorted_wrt R (concat gs)" "i < j" "j < length gs" "a \<in> set (gs ! i)" "b \<in> set (gs ! j)"
  shows "R a b"
  using assms
proof (induction gs arbitrary: i j)
  case Nil
  then show ?case by simp
next
  case (Cons g gs)
  obtain j' where j: "j = Suc j'" using Cons.prems(2) by (cases j) auto
  show ?case
  proof (cases i)
    case 0
    have "b \<in> set (concat gs)" using Cons.prems(3,5) j by auto
    moreover have "a \<in> set g" using Cons.prems(4) 0 by simp
    ultimately show ?thesis using Cons.prems(1) by (auto simp: sorted_wrt_append)
  next
    case (Suc i')
    have "sorted_wrt R (concat gs)" using Cons.prems(1) by (simp add: sorted_wrt_append)
    then show ?thesis
      using Cons.IH [of i' j'] Cons.prems j Suc by simp
  qed
qed

section \<open>Selection and round-robin\<close>

lemma random_choice_mem: "random_choice r g = Inr c \<Longrightarrow> c \<in> set g"
  by (auto simp: random_choice_def split: if_splits)

lemma random_choice_ok: "g \<noteq> [] \<Longrightarrow> \<exists>c. random_choice r g = Inr c"
  by (simp add: random_choice_def)

lemma select_loop_ok:
  "\<forall>g\<in>set gs. g \<noteq> [] \<Longrightarrow> \<exists>asg'. select_loop rnd sm i gs asg = Inr asg'"
proof (induction gs arbitrary: i asg)
  case Nil
  then show ?case by simp
next
  case (Cons g gs)
  then obtain c where "random_choice (rnd i) g = Inr c"
    using random_choice_ok [of g "rnd i"] by auto
  then show ?case using Cons by simp
qed

lemma select_loop_keys:
  "select_loop rnd sm i gs asg = Inr asg' \<Longrightarrow>
   fst ` set asg \<subseteq> fst ` set asg' \<and> fst ` set asg' \<subseteq> fst ` set asg \<union> set (concat gs)"
proof (induction gs arbitrary: i asg)
  case Nil
  then show ?case by simp
next
  case (Cons g gs)
  show ?case
  proof (cases "i < length sm")
    case False
    then show ?thesis using Cons.IH [of "i + 1" asg] Cons.prems by auto
  next
    case True
    then obtain c where c: "random_choice (rnd i) g = Inr c"
      and rest: "select_loop rnd sm (i + 1) gs (AList.update c (name (sm ! i)) asg) = Inr asg'"
      using Cons.prems by (auto split: sum.splits)
    have "c \<in> set g" using c by (rule random_choice_mem)
    then show ?thesis using Cons.IH [OF rest] by (auto simp: dom_update)
  qed
qed

lemma select_loop_distinct:
  "select_loop rnd sm i gs asg = Inr asg' \<Longrightarrow> distinct (map fst asg) \<Longrightarrow> distinct (map fst asg')"
proof (induction gs arbitrary: i asg)
  case Nil
  then show ?case by simp
next
  case (Cons g gs)
  then show ?case
    by (auto split: if_splits sum.splits simp: distinct_update)
qed

lemma update_values: "snd ` set (AList.update k v al) \<subseteq> insert v (snd ` set al)"
  by (induction al) auto

lemma select_loop_values:
  "select_loop rnd sm i gs asg = Inr asg' \<Longrightarrow> snd ` set asg \<subseteq> name ` set sm \<Longrightarrow>
   snd ` set asg' \<subseteq> name ` set sm"
proof (induction gs arbitrary: i asg)
  case Nil
  then show ?case by simp
next
  case (Cons g gs)
  show ?case
  proof (cases "i < length sm")
    case False
    then show ?thesis using Cons.IH [of "i + 1" asg] Cons.prems by auto
  next
    case True
    then obtain c where c: "random_choice (rnd i) g = Inr c"
      and rest: "select_loop rnd sm (i + 1) gs (AList.update c (name (sm ! i)) asg) = Inr asg'"
      using Cons.prems by (auto split: sum.splits)
    have "sm ! i \<in> set sm" using True by simp
    then have "snd ` set (AList.update c (name (sm ! i)) asg) \<subseteq> name ` set sm"
      using update_values [of c "name (sm ! i)" asg] Cons.prems(2) by auto
    then show ?thesis using Cons.IH [OF rest] by simp
  qed
qed

lemma select_loop_other:
  "select_loop rnd sm i gs asg = Inr asg' \<Longrightarrow> k \<notin> set (concat gs) \<Longrightarrow> map_of asg' k = map_of asg k"
proof (induction gs arbitrary: i asg)
  case Nil
  then show ?case by simp
next
  case (Cons g gs)
  show ?case
  proof (cases "i < length sm")
    case False
    then show ?thesis using Cons.IH [of "i + 1" asg] Cons.prems by auto
  next
    case True
    then obtain c where c: "random_choice (rnd i) g = Inr c"
      and rest: "select_loop rnd sm (i + 1) gs (AList.update c (name (sm ! i)) asg) = Inr asg'"
      using Cons.prems by (auto split: sum.splits)
    have "c \<in> set g" using c by (rule random_choice_mem)
    then have "c \<noteq> k" using Cons.prems(2) by auto
    then show ?thesis using Cons.IH [OF rest] Cons.prems(2) by (simp add: update_conv')
  qed
qed

lemma round_robin_keys:
  "fst ` set (round_robin av i cs asg) = fst ` set asg \<union> set cs"
  by (induction cs arbitrary: i asg) (auto simp: dom_update)

lemma round_robin_distinct:
  "distinct (map fst asg) \<Longrightarrow> distinct (map fst (round_robin av i cs asg))"
  by (induction cs arbitrary: i asg) (auto simp: distinct_update)

lemma round_robin_other:
  "k \<notin> set cs \<Longrightarrow> map_of (round_robin av i cs asg) k = map_of asg k"
  by (induction cs arbitrary: i asg) (auto simp: update_conv')

lemma round_robin_values:
  "av \<noteq> [] \<Longrightarrow> snd ` set asg \<subseteq> name ` set av \<Longrightarrow>
   snd ` set (round_robin av i cs asg) \<subseteq> name ` set av"
proof (induction cs arbitrary: i asg)
  case Nil
  then show ?case by simp
next
  case (Cons c cs)
  have "av ! (i mod length av) \<in> set av" using Cons.prems(1) by simp
  then have "snd ` set (AList.update c (name (av ! (i mod length av))) asg) \<subseteq> name ` set av"
    using update_values [of c "name (av ! (i mod length av))" asg] Cons.prems(2) by auto
  then show ?case using Cons.IH [OF Cons.prems(1)] by simp
qed

section \<open>The assignment\<close>

lemma set_sorted_clients: "set (sorted_clients cs) = set cs"
  by (simp add: sorted_clients_def set_sorted_reverse)

lemma length_sorted_clients: "length (sorted_clients cs) = length cs"
  by (simp add: sorted_clients_def length_sorted_reverse)

lemma distinct_sorted_clients: "distinct (map fst (sorted_clients cs)) = distinct (map fst cs)"
  by (simp add: sorted_clients_def distinct_keys_sorted_reverse)

lemma sorted_clients_descending:
  "sorted_wrt (\<lambda>x y. score (snd x) \<ge> score (snd y)) (sorted_clients cs)"
  unfolding sorted_clients_def by (rule sorted_reverse_descending)

lemma score_of_entry:
  "distinct (map fst cs) \<Longrightarrow> x \<in> set cs \<Longrightarrow> score_of cs (fst x) = score (snd x)"
  by (cases x) (simp add: score_of_def)

lemma sorted_ids_descending:
  assumes "distinct (map fst cs)"
  shows "sorted_wrt (\<lambda>a b. score_of cs a \<ge> score_of cs b) (map fst (sorted_clients cs))"
proof -
  have "sorted_wrt (\<lambda>x y. score_of cs (fst x) \<ge> score_of cs (fst y)) (sorted_clients cs)"
    using sorted_clients_descending [of cs]
  proof (rule sorted_wrt_mono_rel [rotated])
    fix x y
    assume "x \<in> set (sorted_clients cs)" "y \<in> set (sorted_clients cs)"
      and "score (snd y) \<le> score (snd x)"
    then show "score_of cs (fst y) \<le> score_of cs (fst x)"
      using assms by (simp add: set_sorted_clients score_of_entry)
  qed
  then show ?thesis by (simp add: sorted_wrt_map)
qed

lemma concat_performance_groups:
  "av \<noteq> [] \<Longrightarrow> concat (performance_groups av cs) = map fst (sorted_clients cs)"
  by (simp add: performance_groups_def concat_create_performance_groups)

lemma length_performance_groups:
  "av \<noteq> [] \<Longrightarrow> length (performance_groups av cs) = min (length av) (length cs)"
  by (simp add: performance_groups_def length_create_performance_groups length_sorted_clients)

lemma performance_groups_nonempty:
  "av \<noteq> [] \<Longrightarrow> g \<in> set (performance_groups av cs) \<Longrightarrow> g \<noteq> []"
  unfolding performance_groups_def by (rule groups_nonempty) simp_all

lemma nth_length_performance_groups:
  assumes "av \<noteq> []" "i < length (performance_groups av cs)"
  shows "length (performance_groups av cs ! i)
           = length cs div length av + (if i < length cs mod length av then 1 else 0)"
  using nth_length_create_performance_groups [of "length av" i "sorted_clients cs"] assms
  by (simp add: performance_groups_def length_sorted_clients)

lemma set_sorted_models: "set (sorted_models av) = set av"
  by (simp add: sorted_models_def set_sorted_reverse)

lemma length_sorted_models: "length (sorted_models av) = length av"
  by (simp add: sorted_models_def length_sorted_reverse)

lemma sorted_models_top:
  assumes "av \<noteq> []"
  shows "sorted_models av ! 0 \<in> set av"
    and "complexity_score (sorted_models av ! 0) = Max (complexity_score ` set av)"
proof -
  have ne: "sorted_models av \<noteq> []" using assms length_sorted_models [of av] by auto
  then have hd: "sorted_models av ! 0 = hd (sorted_models av)" by (simp add: hd_conv_nth)
  show "sorted_models av ! 0 \<in> set av"
    using ne hd set_sorted_models [of av] by (metis list.set_sel(1))
  have "complexity_score (hd (sorted_models av)) = Max (complexity_score ` set (sorted_models av))"
    using ne unfolding sorted_models_def
    by (intro descending_hd_Max sorted_reverse_descending)
  then show "complexity_score (sorted_models av ! 0) = Max (complexity_score ` set av)"
    using hd by (simp add: set_sorted_models)
qed

lemma sorted_clients_top:
  assumes "cs \<noteq> []"
  shows "score (snd (hd (sorted_clients cs))) = Max ((\<lambda>x. score (snd x)) ` set cs)"
proof -
  have ne: "sorted_clients cs \<noteq> []" using assms length_sorted_clients [of cs] by auto
  have "score (snd (hd (sorted_clients cs)))
          = Max ((\<lambda>x. score (snd x)) ` set (sorted_clients cs))"
    using ne sorted_clients_descending [of cs] by (intro descending_hd_Max)
  then show ?thesis by (simp add: set_sorted_clients)
qed

lemma assign_total_domain:
  assumes "cs \<noteq> []" "av \<noteq> []"
  shows "\<exists>asg. assign_models_to_clients rnd av cs = Inr asg \<and>
           fst ` set asg = fst ` set cs \<and> distinct (map fst asg) \<and>
           snd ` set asg \<subseteq> name ` set av"
proof -
  let ?gs = "performance_groups av cs"
  let ?sm = "sorted_models av"
  have "\<forall>g\<in>set ?gs. g \<noteq> []" using performance_groups_nonempty [OF assms(2)] by blast
  then obtain asg0 where sel: "select_loop rnd ?sm 0 ?gs [] = Inr asg0"
    using select_loop_ok by blast
  let ?rem = "filter (\<lambda>cid. cid \<notin> set (map fst asg0)) (map fst (sorted_clients cs))"
  let ?asg = "round_robin av 0 ?rem asg0"
  have res: "assign_models_to_clients rnd av cs = Inr ?asg"
    using assms sel by (simp add: assign_models_to_clients_def)
  have "fst ` set asg0 \<subseteq> set (concat ?gs)" using select_loop_keys [OF sel] by simp
  then have sub: "fst ` set asg0 \<subseteq> fst ` set cs"
    by (simp add: concat_performance_groups [OF assms(2)] set_sorted_clients)
  have "fst ` set ?asg = fst ` set asg0 \<union> set ?rem" by (rule round_robin_keys)
  also have "\<dots> = fst ` set cs" using sub by (auto simp: set_sorted_clients)
  finally have dom: "fst ` set ?asg = fst ` set cs" .
  have "distinct (map fst asg0)" using select_loop_distinct [OF sel] by simp
  then have dist: "distinct (map fst ?asg)" by (rule round_robin_distinct)
  have "snd ` set asg0 \<subseteq> name ` set ?sm" using select_loop_values [OF sel] by simp
  then have "snd ` set asg0 \<subseteq> name ` set av" by (simp add: set_sorted_models)
  then have "snd ` set ?asg \<subseteq> name ` set av" by (rule round_robin_values [OF assms(2)])
  then show ?thesis using res dom dist by blast
qed

lemma top_group_selection:
  assumes "cs \<noteq> []" "av \<noteq> []" "distinct (map fst cs)"
  shows "\<exists>asg g0 rest. assign_models_to_clients rnd av cs = Inr asg \<and>
           performance_groups av cs = g0 # rest \<and> g0 \<noteq> [] \<and>
           map_of asg (g0 ! (rnd 0 mod length g0)) = Some (name (sorted_models av ! 0))"
proof -
  let ?gs = "performance_groups av cs"
  let ?sm = "sorted_models av"
  have "length ?gs = min (length av) (length cs)" by (rule length_performance_groups [OF assms(2)])
  moreover have "0 < length av" "0 < length cs" using assms by simp_all
  ultimately have "0 < length ?gs" by simp
  then have "?gs \<noteq> []" by auto
  then obtain g0 rest where gs: "?gs = g0 # rest" by (cases ?gs) auto
  have g0: "g0 \<noteq> []" using performance_groups_nonempty [OF assms(2), of g0 cs] gs by simp
  let ?c0 = "g0 ! (rnd 0 mod length g0)"
  have c0_in: "?c0 \<in> set g0" using g0 by simp
  have "\<forall>g\<in>set ?gs. g \<noteq> []" using performance_groups_nonempty [OF assms(2)] by blast
  then obtain asg0 where sel: "select_loop rnd ?sm 0 ?gs [] = Inr asg0"
    using select_loop_ok by blast
  have sm: "0 < length ?sm" using assms(2) by (simp add: length_sorted_models)
  have rest: "select_loop rnd ?sm 1 rest [(?c0, name (?sm ! 0))] = Inr asg0"
    using sel gs g0 sm by (simp add: random_choice_def)
  have "distinct (concat ?gs)"
    using assms(3) by (simp add: concat_performance_groups [OF assms(2)] distinct_sorted_clients)
  then have "?c0 \<notin> set (concat rest)" using gs c0_in by auto
  then have m0: "map_of asg0 ?c0 = Some (name (?sm ! 0))"
    using select_loop_other [OF rest] by simp
  let ?rem = "filter (\<lambda>cid. cid \<notin> set (map fst asg0)) (map fst (sorted_clients cs))"
  let ?asg = "round_robin av 0 ?rem asg0"
  have res: "assign_models_to_clients rnd av cs = Inr ?asg"
    using assms sel by (simp add: assign_models_to_clients_def)
  have "?c0 \<in> fst ` set asg0" using m0 by (metis map_of_eq_None_iff option.distinct(1))
  then have "?c0 \<notin> set ?rem" by simp
  then have "map_of ?asg ?c0 = map_of asg0 ?c0" by (rule round_robin_other)
  then show ?thesis using res gs g0 m0 by auto
qed

section \<open>Registration and dispatch\<close>

lemma vision_flag_not_true: "vision_flag available client_info \<noteq> Inr True"
  by (simp add: vision_flag_def supports_vision_def split: option.splits)

lemma build_ai_request_images:
  "build_ai_request env available query imgs client_info = Inr ai_request \<Longrightarrow> images ai_request = []"
  using vision_flag_not_true [of available client_info]
  by (auto simp: build_ai_request_def client_images_def split: sum.splits)

lemma map_filter_empty_iff: "List.map_filter f xs = [] \<longleftrightarrow> (\<forall>x\<in>set xs. f x = None)"
  by (auto simp: List.map_filter_def filter_empty_conv)

lemma worker_fails_no_entry:
  "worker_fails env entry \<Longrightarrow> process_client_request env available query imgs entry = None"
proof -
  assume f: "worker_fails env entry"
  show ?thesis
  proof (cases "build_ai_request env available query imgs (snd entry)")
    case (Inl e)
    then show ?thesis by (simp add: process_client_request_def)
  next
    case (Inr ai_request)
    from f have "case stub_ProcessAIRequest env (ip_address (snd entry) @ '':50052'') ai_request of
          RpcError \<Rightarrow> True | Reply response \<Rightarrow> \<not> success response"
      unfolding worker_fails_def by blast
    then show ?thesis using Inr by (simp add: process_client_request_def split: rpc_result.splits)
  qed
qed

lemma worker_success_entry:
  "worker_returns_success env available query imgs entry \<Longrightarrow>
   process_client_request env available query imgs entry \<noteq> None"
  by (auto simp: worker_returns_success_def process_client_request_def Let_def
      split: sum.splits rpc_result.splits)


text \<open>
  Two consequences of the missing attribute: with a non-empty catalog a registration
  ends in the failure response, and a worker whose assigned model is in the catalog is
  never sent a request.
\<close>

lemma get_model_info_found:
  "m \<in> name ` set available \<Longrightarrow> \<exists>model_info. get_model_info available m = Some model_info"
  by (induction available) auto

lemma registration_fails_with_catalog:
  assumes "available_models self \<noteq> []"
  shows "\<not> reg_success (snd (RegisterClient rnd now self request))"
proof -
  let ?entry = "\<lparr>hostname = req_hostname request, ip_address = req_ip_address request,
             specs = req_specs request, last_seen = now, assigned_model = None, group = None\<rparr>"
  let ?cs = "AList.update (client_id request) ?entry (clients self)"
  have "?cs \<noteq> []" by simp
  then obtain asg where asg: "assign_models_to_clients rnd (available_models self) ?cs = Inr asg"
    and keys: "fst ` set asg = fst ` set ?cs"
    and vals: "snd ` set asg \<subseteq> name ` set (available_models self)"
    using assign_total_domain [OF _ assms, of ?cs rnd] by blast
  have "client_id request \<in> fst ` set asg" using keys by (simp add: dom_update)
  then obtain m where m: "map_of asg (client_id request) = Some m"
    by (cases "map_of asg (client_id request)") (auto simp: map_of_eq_None_iff)
  then have "m \<in> snd ` set asg" by (metis map_of_SomeD snd_conv image_eqI)
  then obtain model_info where "get_model_info (available_models self) m = Some model_info"
    using vals get_model_info_found by blast
  then show ?thesis
    using asg m by (simp add: RegisterClient_def Let_def supports_vision_def registration_failed_def)
qed

lemma catalog_model_request_raises:
  "assigned_model client_info = Some m \<Longrightarrow> m \<in> name ` set available \<Longrightarrow>
   build_ai_request env available query imgs client_info = Inl AttributeError"
  using get_model_info_found [of m available]
  by (auto simp: build_ai_request_def vision_flag_def supports_vision_def)

section \<open>The claims\<close>

text \<open>
  Claim C1, as amended. For a registry with distinct worker IDs and a non-empty catalog,
  the assignment returns, and the worker that \<^verbatim>\<open>random.choice\<close> selects from the
  first group is assigned the first model of the catalog sorted by descending rank, a
  model of the catalog whose complexity rank is the maximum over the catalog. The
  selected worker is the first worker of the score-descending order, whose score is the
  maximum over the registry, whenever the registry has no more workers than the catalog
  has models or the draw picks the first member of the group.
\<close>

theorem top_group_gets_top_model:
  assumes "cs \<noteq> []" "available \<noteq> []" "distinct (map fst cs)"
  shows "\<exists>asg. assign_models_to_clients rnd available cs = Inr asg \<and>
           (let g0 = hd (performance_groups available cs);
                selected = g0 ! (rnd 0 mod length g0)
            in selected \<in> set g0 \<and>
               map_of asg selected = Some (name (sorted_models available ! 0)) \<and>
               (length cs \<le> length available \<or> rnd 0 mod length g0 = 0
                  \<longrightarrow> selected = fst (hd (sorted_clients cs)))) \<and>
           sorted_models available ! 0 \<in> set available \<and>
           complexity_score (sorted_models available ! 0) = Max (complexity_score ` set available) \<and>
           score (snd (hd (sorted_clients cs))) = Max ((\<lambda>x. score (snd x)) ` set cs)"
proof -
  obtain asg g0 rest where res: "assign_models_to_clients rnd available cs = Inr asg"
    and gs: "performance_groups available cs = g0 # rest" and g0: "g0 \<noteq> []"
    and sel: "map_of asg (g0 ! (rnd 0 mod length g0)) = Some (name (sorted_models available ! 0))"
    using top_group_selection [OF assms, of rnd] by blast
  have sc: "sorted_clients cs \<noteq> []" using assms(1) length_sorted_clients [of cs] by auto
  have "concat (g0 # rest) = map fst (sorted_clients cs)"
    using concat_performance_groups [OF assms(2), of cs] gs by simp
  then have "hd (g0 @ concat rest) = hd (map fst (sorted_clients cs))" by simp
  then have "hd g0 = fst (hd (sorted_clients cs))"
    using g0 sc by (simp add: hd_map)
  then have top: "g0 ! 0 = fst (hd (sorted_clients cs))"
    using g0 by (simp add: hd_conv_nth)
  have single: "length g0 = 1" if "length cs \<le> length available"
  proof -
    have "length g0 = length cs div length available
                        + (if 0 < length cs mod length available then 1 else 0)"
      using nth_length_performance_groups [OF assms(2), of 0 cs] gs by simp
    moreover have "length cs div length available
                        + (if 0 < length cs mod length available then 1 else 0) = 1"
    proof (cases "length cs < length available")
      case True
      then show ?thesis using assms(1) by simp
    next
      case False
      then have "length cs = length available" using that by simp
      then show ?thesis using assms(2) by simp
    qed
    ultimately show ?thesis by simp
  qed
  have first: "g0 ! (rnd 0 mod length g0) = fst (hd (sorted_clients cs))"
    if "length cs \<le> length available \<or> rnd 0 mod length g0 = 0"
    using that single top by auto
  have mem: "g0 ! (rnd 0 mod length g0) \<in> set g0" using g0 by simp
  show ?thesis
    using res sel first mem gs sorted_models_top [OF assms(2)] sorted_clients_top [OF assms(1)]
    by (auto simp: Let_def)
qed

theorem top_group_gets_top_model_witness:
  "three_clients \<noteq> [] \<and> two_models \<noteq> [] \<and> distinct (map fst three_clients) \<and>
   assign_models_to_clients (\<lambda>i. 0) two_models three_clients
     = Inr [(''A'', ''large-8b''), (''C'', ''small-1b''), (''B'', ''small-1b'')] \<and>
   hd (performance_groups two_models three_clients) = [''A'', ''B''] \<and>
   fst (hd (sorted_clients three_clients)) = ''A'' \<and>
   name (sorted_models two_models ! 0) = ''large-8b'' \<and>
   complexity_score (sorted_models two_models ! 0) = 7 \<and>
   Max (complexity_score ` set two_models) = 7"
proof -
  have ne: "three_clients \<noteq> []" "two_models \<noteq> []" "distinct (map fst three_clients)"
    by (simp_all add: three_clients_def two_models_def)
  have ev: "assign_models_to_clients (\<lambda>i. 0) two_models three_clients
     = Inr [(''A'', ''large-8b''), (''C'', ''small-1b''), (''B'', ''small-1b'')]"
    "hd (performance_groups two_models three_clients) = [''A'', ''B'']"
    "fst (hd (sorted_clients three_clients)) = ''A''"
    "name (sorted_models two_models ! 0) = ''large-8b''"
    "complexity_score (sorted_models two_models ! 0) = 7"
    by code_simp+
  have "complexity_score (sorted_models two_models ! 0) = Max (complexity_score ` set two_models)"
    using top_group_gets_top_model [OF ne, of "\<lambda>i. 0"] by blast
  then show ?thesis using ne ev by simp
qed

text \<open>
  The claim as stated fails: with three workers, two models and a draw that picks the
  second member of the first group, worker A, of the highest score 90, is assigned
  small-1b of rank 4 by the round-robin, while the maximum rank of the catalog is 7.
\<close>

theorem top_worker_counterexample:
  "assign_models_to_clients (\<lambda>i. 1) two_models three_clients
     = Inr [(''B'', ''large-8b''), (''C'', ''small-1b''), (''A'', ''small-1b'')] \<and>
   fst (hd (sorted_clients three_clients)) = ''A'' \<and>
   score (snd (hd (sorted_clients three_clients))) = 90 \<and>
   map_of [(''B'', ''large-8b''), (''C'', ''small-1b''), (''A'', ''small-1b'')] ''A''
     = Some ''small-1b'' \<and>
   map_option complexity_score (get_model_info two_models ''small-1b'') = Some 4 \<and>
   Max (complexity_score ` set two_models) = 7"
proof -
  have "Max (complexity_score ` set two_models) = 7"
    by (simp add: two_models_def new_ModelInfo_def post_init_def)
  moreover have "assign_models_to_clients (\<lambda>i. 1) two_models three_clients
     = Inr [(''B'', ''large-8b''), (''C'', ''small-1b''), (''A'', ''small-1b'')] \<and>
   fst (hd (sorted_clients three_clients)) = ''A'' \<and>
   score (snd (hd (sorted_clients three_clients))) = 90 \<and>
   map_of [(''B'', ''large-8b''), (''C'', ''small-1b''), (''A'', ''small-1b'')] ''A''
     = Some ''small-1b'' \<and>
   map_option complexity_score (get_model_info two_models ''small-1b'') = Some 4"
    by code_simp
  ultimately show ?thesis by simp
qed

text \<open>
  Claim C2, as amended. With an empty registry \<^verbatim>\<open>process_distributed_query\<close> returns
  the constant text "No clients connected" whatever the workers and the environment are,
  and \<^verbatim>\<open>ProcessRequest\<close> hands it to the caller as the \<^verbatim>\<open>response_text\<close> of an
  \<^verbatim>\<open>AIResponse\<close> with \<^verbatim>\<open>success=True\<close> and \<^verbatim>\<open>model_used="distributed"\<close>.
\<close>

theorem dispatch_without_clients:
  assumes "clients self = []"
  shows "process_distributed_query env self query imgs_opt = no_clients_message \<and>
         success (ProcessRequest env self request) \<and>
         response_text (ProcessRequest env self request) = no_clients_message \<and>
         model_used (ProcessRequest env self request) = ''distributed''"
  using assms by (simp add: process_distributed_query_def ProcessRequest_def)

theorem dispatch_without_clients_witness:
  "clients \<lparr>clients = [], available_models = default_models\<rparr> = [] \<and>
   process_distributed_query (example_env (Reply (example_response True)))
     \<lparr>clients = [], available_models = default_models\<rparr> ''hello'' None = no_clients_message \<and>
   model_used (ProcessRequest (example_env (Reply (example_response True)))
     \<lparr>clients = [], available_models = default_models\<rparr> example_request) = ''distributed''"
  using dispatch_without_clients [of "\<lparr>clients = [], available_models = default_models\<rparr>"
      "example_env (Reply (example_response True))" "''hello''" None example_request]
  by simp

text \<open>
  The claim as stated fails: the response to a dispatch on the empty registry carries
  \<^verbatim>\<open>success=True\<close>.
\<close>

theorem dispatch_without_clients_counterexample:
  "success (ProcessRequest (example_env RpcError) \<lparr>clients = [], available_models = default_models\<rparr>
      example_request) \<and>
   response_text (ProcessRequest (example_env RpcError)
      \<lparr>clients = [], available_models = default_models\<rparr> example_request) = no_clients_message"
  by (simp add: process_distributed_query_def ProcessRequest_def)

text \<open>
  Claim C3. Whatever images the caller supplies, line 295 yields the empty list on a
  false flag, the flag computed for a worker is never true, and every \<^verbatim>\<open>AIRequest\<close>
  built for a worker carries the empty images list: no worker, and so no worker whose
  model is without vision support, is sent an image.
\<close>

theorem non_vision_images_empty:
  "client_images False imgs = [] \<and>
   vision_flag available client_info \<noteq> Inr True \<and>
   (\<forall>ai_request. build_ai_request env available query imgs client_info = Inr ai_request
      \<longrightarrow> images ai_request = [])"
  using vision_flag_not_true build_ai_request_images by (simp add: client_images_def)

theorem non_vision_images_empty_witness:
  "build_ai_request (example_env RpcError) default_models ''hello'' [''aW1hZ2U='']
     (example_client 90 (Some ''query-3b''))
     = Inr \<lparr>request_id = ''r1'', prompt = ''hello'', ai_assigned_model = ''query-3b'', timestamp = 0,
            images = []\<rparr> \<and>
   images \<lparr>request_id = ''r1'', prompt = ''hello'', ai_assigned_model = ''query-3b'', timestamp = 0,
            images = []\<rparr> = []"
  using non_vision_images_empty [of "[''aW1hZ2U='']" default_models "example_client 90 (Some ''query-3b'')"
      "example_env RpcError" "''hello''"]
  by (simp add: build_ai_request_def vision_flag_def default_models_def new_ModelInfo_def
      post_init_def example_client_def example_env_def client_images_def)

text \<open>
  Claim C4. For a non-empty registry and a non-empty catalog, for every outcome of the
  random selection, the assignment returns a dictionary whose keys are exactly the worker
  IDs of the registry, each once, and whose values are model names of the catalog.
\<close>

theorem assign_domain_is_registry:
  assumes "cs \<noteq> []" "available \<noteq> []"
  shows "\<exists>asg. assign_models_to_clients rnd available cs = Inr asg \<and>
           fst ` set asg = fst ` set cs \<and> distinct (map fst asg) \<and>
           snd ` set asg \<subseteq> name ` set available"
  using assms by (rule assign_total_domain)

theorem assign_domain_is_registry_witness:
  "three_clients \<noteq> [] \<and> two_models \<noteq> [] \<and>
   assign_models_to_clients (\<lambda>i. 1) two_models three_clients
     = Inr [(''B'', ''large-8b''), (''C'', ''small-1b''), (''A'', ''small-1b'')] \<and>
   fst ` set [(''B'', ''large-8b''), (''C'', ''small-1b''), (''A'', ''small-1b'')]
     = fst ` set three_clients"
proof -
  have ne: "three_clients \<noteq> []" "two_models \<noteq> []"
    by (simp_all add: three_clients_def two_models_def)
  have ev: "assign_models_to_clients (\<lambda>i. 1) two_models three_clients
     = Inr [(''B'', ''large-8b''), (''C'', ''small-1b''), (''A'', ''small-1b'')]"
    by code_simp
  have "fst ` set [(''B'', ''large-8b''), (''C'', ''small-1b''), (''A'', ''small-1b'')]
     = fst ` set three_clients"
    using assign_domain_is_registry [OF ne, of "\<lambda>i. 1"] ev by auto
  then show ?thesis using ne ev by simp
qed

text \<open>
  Claim C5. For a registry of N workers with distinct IDs and a catalog of G models,
  there are min(G, N) groups; when the catalog is not empty they are consecutive slices
  of the score-descending order, which their concatenation gives back; the first N mod G
  groups have ceil(N/G) members and the others floor(N/G); and a worker of a
  lower-numbered group has a score greater than or equal to that of a worker of a
  higher-numbered group.
\<close>

theorem performance_groups_partition:
  assumes "distinct (map fst cs)"
  shows "length (performance_groups available cs) = min (length available) (length cs) \<and>
         (available \<noteq> [] \<longrightarrow>
            concat (performance_groups available cs) = map fst (sorted_clients cs)) \<and>
         (\<forall>i < length (performance_groups available cs).
            length (performance_groups available cs ! i) =
              (if i < length cs mod length available
               then (length cs + length available - 1) div length available
               else length cs div length available)) \<and>
         (\<forall>i j. i < j \<and> j < length (performance_groups available cs) \<longrightarrow>
            (\<forall>a \<in> set (performance_groups available cs ! i).
             \<forall>b \<in> set (performance_groups available cs ! j).
               score_of cs a \<ge> score_of cs b))"
proof (cases "available = []")
  case True
  then have "performance_groups available cs = []"
    by (simp add: performance_groups_def create_performance_groups_def)
  then show ?thesis using True by simp
next
  case ne: False
  show ?thesis
  proof (intro conjI allI impI ballI)
    show "length (performance_groups available cs) = min (length available) (length cs)"
      using ne by (rule length_performance_groups)
    show "concat (performance_groups available cs) = map fst (sorted_clients cs)"
      using ne by (rule concat_performance_groups)
  next
    fix i
    assume i: "i < length (performance_groups available cs)"
    have G: "0 < length available" using ne by simp
    have "length (performance_groups available cs ! i)
            = length cs div length available
                + (if i < length cs mod length available then 1 else 0)"
      using ne i by (rule nth_length_performance_groups)
    moreover have "(length cs + length available - 1) div length available
                     = length cs div length available + 1"
      if "i < length cs mod length available"
      using G that by (intro ceil_div) auto
    ultimately show "length (performance_groups available cs ! i) =
                (if i < length cs mod length available
                 then (length cs + length available - 1) div length available
                 else length cs div length available)"
      by simp
  next
    fix i j a b
    assume ij: "i < j \<and> j < length (performance_groups available cs)"
      and a: "a \<in> set (performance_groups available cs ! i)"
      and b: "b \<in> set (performance_groups available cs ! j)"
    have "sorted_wrt (\<lambda>a b. score_of cs a \<ge> score_of cs b)
            (concat (performance_groups available cs))"
      using sorted_ids_descending [OF assms] by (simp add: concat_performance_groups [OF ne])
    then show "score_of cs b \<le> score_of cs a"
      using between_groups [where R = "\<lambda>a b. score_of cs a \<ge> score_of cs b"
          and gs = "performance_groups available cs" and i = i and j = j and a = a and b = b]
        ij a b
      by simp
  qed
qed

theorem performance_groups_partition_witness:
  "two_models \<noteq> [] \<and> distinct (map fst three_clients) \<and>
   performance_groups two_models three_clients = [[''A'', ''B''], [''C'']] \<and>
   length (performance_groups two_models three_clients) = min 2 3 \<and>
   concat (performance_groups two_models three_clients) = map fst (sorted_clients three_clients) \<and>
   score_of three_clients ''C'' \<le> score_of three_clients ''B''"
proof -
  have ne: "two_models \<noteq> []" "distinct (map fst three_clients)"
    by (simp_all add: three_clients_def two_models_def)
  have ev: "performance_groups two_models three_clients = [[''A'', ''B''], [''C'']]"
    by code_simp
  have len: "length two_models = 2" "length three_clients = 3"
    by (simp_all add: three_clients_def two_models_def)
  note part = performance_groups_partition [OF ne(2), of two_models]
  have "\<forall>a \<in> set (performance_groups two_models three_clients ! 0).
        \<forall>b \<in> set (performance_groups two_models three_clients ! 1).
          score_of three_clients a \<ge> score_of three_clients b"
    using part ev by (metis One_nat_def length_Cons lessI list.size(3) zero_less_one)
  then have "score_of three_clients ''C'' \<le> score_of three_clients ''B''"
    using ev by simp
  then show ?thesis using ne ev part len by simp
qed

text \<open>
  Claim C6, as amended. The workers are sorted by performance score in descending order
  with a stable sort: the result is a permutation of the registry, descending in the
  score, and workers of equal score keep the order in which the registry holds them,
  that is their registration order. No other tie-break is applied.
\<close>

theorem sorted_clients_stable_descending:
  "sorted_wrt (\<lambda>x y. score (snd x) \<ge> score (snd y)) (sorted_clients cs) \<and>
   mset (sorted_clients cs) = mset cs \<and>
   filter (\<lambda>x. score (snd x) = s) (sorted_clients cs) = filter (\<lambda>x. score (snd x) = s) cs"
  using sorted_clients_descending [of cs]
  by (simp add: sorted_clients_def mset_sorted_reverse sorted_reverse_stable)

theorem sorted_clients_stable_descending_witness:
  "map fst (sorted_clients
      [(''b'', example_client 50 None), (''c'', example_client 70 None),
       (''a'', example_client 50 None)]) = [''c'', ''b'', ''a''] \<and>
   mset (sorted_clients
      [(''b'', example_client 50 None), (''c'', example_client 70 None),
       (''a'', example_client 50 None)])
     = mset [(''b'', example_client 50 None), (''c'', example_client 70 None),
       (''a'', example_client 50 None)]"
proof -
  have "map fst (sorted_clients
      [(''b'', example_client 50 None), (''c'', example_client 70 None),
       (''a'', example_client 50 None)]) = [''c'', ''b'', ''a'']"
    by code_simp
  then show ?thesis
    using sorted_clients_stable_descending
      [of "[(''b'', example_client 50 None), (''c'', example_client 70 None),
            (''a'', example_client 50 None)]" 50]
    by simp
qed

text \<open>
  The claim as stated fails: two workers of equal score stay in registration order, b
  before a, although a is the smaller ID; registered the other way round they come out
  the other way round.
\<close>

theorem sorted_clients_tie_counterexample:
  "map fst (sorted_clients [(''b'', example_client 50 None), (''a'', example_client 50 None)])
     = [''b'', ''a''] \<and>
   map fst (sorted_clients [(''a'', example_client 50 None), (''b'', example_client 50 None)])
     = [''a'', ''b''] \<and>
   ''a'' < ''b''"
  by (simp add: sorted_clients_def sorted_reverse_def score_def example_client_def example_specs_def)




text \<open>
  Claim C8. A descriptor built with \<^verbatim>\<open>complexity_score=0\<close>, as every call site of the
  sources does, carries the rank given by the table of section 4.2 of the specification
  (70e9 gives 10, 30e9 gives 9, 13e9 gives 8, 8e9 gives 7, 7e9 gives 6, 3e9 gives 5,
  1e9 gives 4, 500e6 gives 3, 100e6 gives 2, anything smaller 1), and this rank is
  monotone non-decreasing in the parameter count.
\<close>

theorem complexity_rank_step_monotone:
  "complexity_score (new_ModelInfo n p s 0) = spec_rank p \<and>
   (p1 \<le> p2 \<longrightarrow>
      complexity_score (new_ModelInfo n1 p1 s1 0) \<le> complexity_score (new_ModelInfo n2 p2 s2 0))"
  using spec_rank_mono [of p1 p2] by (simp add: new_ModelInfo_def post_init_rank)

theorem complexity_rank_step_monotone_witness:
  "(3000000000::int) \<le> 8000000000 \<and>
   complexity_score (new_ModelInfo ''llama3.1:8b'' 8000000000 16 0) = spec_rank 8000000000 \<and>
   spec_rank 8000000000 = 7 \<and>
   complexity_score (new_ModelInfo ''llama3.2:3b'' 3000000000 6 0) = 5 \<and>
   complexity_score (new_ModelInfo ''llama3.2:3b'' 3000000000 6 0)
     \<le> complexity_score (new_ModelInfo ''llama3.1:8b'' 8000000000 16 0)"
  using complexity_rank_step_monotone [of "''llama3.1:8b''" 8000000000 16 3000000000 8000000000
      "''llama3.2:3b''" 6 "''llama3.1:8b''" 16]
  by (simp add: new_ModelInfo_def post_init_def spec_rank_def spec_rank_table_def)

text \<open>
  Claim C9. When the registry is not empty and every worker thread finishes: if every
  worker fails (its call raises or answers \<^verbatim>\<open>success=false\<close>), the dispatch returns
  the constant text "No successful responses from clients"; if at least one worker
  returns success, the list of responses is not empty and the dispatch returns what
  \<^verbatim>\<open>_create_intelligent_summary\<close> makes of it.
\<close>

theorem dispatch_failure_or_summary:
  assumes "clients self \<noteq> []"
    and "set (completion_order env (clients self)) = set (clients self)"
    and "imgs = (case imgs_opt of None \<Rightarrow> [] | Some given \<Rightarrow> given)"
  shows "((\<forall>entry \<in> set (clients self). worker_fails env entry) \<longrightarrow>
            process_distributed_query env self query imgs_opt = no_successful_responses_message) \<and>
         ((\<exists>entry \<in> set (clients self).
              worker_returns_success env (available_models self) query imgs entry) \<longrightarrow>
            collect_responses env self query imgs \<noteq> [] \<and>
            process_distributed_query env self query imgs_opt
              = create_intelligent_summary env (available_models self)
                  (collect_responses env self query imgs))"
proof (intro conjI impI)
  assume "\<forall>entry \<in> set (clients self). worker_fails env entry"
  then have "collect_responses env self query imgs = []"
    using assms(2) by (simp add: collect_responses_def map_filter_empty_iff worker_fails_no_entry)
  then show "process_distributed_query env self query imgs_opt = no_successful_responses_message"
    using assms(1,3) by (simp add: process_distributed_query_def)
next
  assume "\<exists>entry \<in> set (clients self).
              worker_returns_success env (available_models self) query imgs entry"
  then obtain entry where "entry \<in> set (clients self)"
    and "process_client_request env (available_models self) query imgs entry \<noteq> None"
    using worker_success_entry by blast
  then show ne: "collect_responses env self query imgs \<noteq> []"
    using assms(2) by (auto simp: collect_responses_def map_filter_empty_iff)
  show "process_distributed_query env self query imgs_opt
              = create_intelligent_summary env (available_models self)
                  (collect_responses env self query imgs)"
    using assms(1,3) ne by (simp add: process_distributed_query_def)
qed

theorem dispatch_failure_or_summary_witness:
  "process_distributed_query (example_env RpcError)
     \<lparr>clients = [(''A'', example_client 90 None)], available_models = default_models\<rparr>
     ''hello'' (Some []) = no_successful_responses_message \<and>
   process_distributed_query (example_env (Reply (example_response False)))
     \<lparr>clients = [(''A'', example_client 90 None)], available_models = default_models\<rparr>
     ''hello'' (Some []) = no_successful_responses_message \<and>
   worker_returns_success (example_env (Reply (example_response True))) default_models
     ''hello'' [] (''A'', example_client 90 None) \<and>
   process_distributed_query (example_env (Reply (example_response True)))
     \<lparr>clients = [(''A'', example_client 90 None)], available_models = default_models\<rparr>
     ''hello'' (Some [])
     = create_intelligent_summary (example_env (Reply (example_response True))) default_models
         (collect_responses (example_env (Reply (example_response True)))
            \<lparr>clients = [(''A'', example_client 90 None)], available_models = default_models\<rparr>
            ''hello'' []) \<and>
   create_intelligent_summary (example_env (Reply (example_response True))) default_models
         (collect_responses (example_env (Reply (example_response True)))
            \<lparr>clients = [(''A'', example_client 90 None)], available_models = default_models\<rparr>
            ''hello'' []) = ''answer''"
proof -
  let ?self = "\<lparr>clients = [(''A'', example_client 90 None)], available_models = default_models\<rparr>"
  have ne: "clients ?self \<noteq> []" by simp
  have given: "[] = (case Some [] of None \<Rightarrow> [] | Some given \<Rightarrow> given)" by simp
  have order: "set (completion_order (example_env outcome) (clients ?self)) = set (clients ?self)"
    for outcome by (simp add: example_env_def)
  have f1: "\<forall>entry \<in> set (clients ?self). worker_fails (example_env RpcError) entry"
    by (simp add: worker_fails_def example_env_def)
  have f2: "\<forall>entry \<in> set (clients ?self).
              worker_fails (example_env (Reply (example_response False))) entry"
    by (simp add: worker_fails_def example_env_def example_response_def)
  have s: "worker_returns_success (example_env (Reply (example_response True))) default_models
     ''hello'' [] (''A'', example_client 90 None)"
    by (simp add: worker_returns_success_def build_ai_request_def vision_flag_def
        example_client_def example_env_def example_response_def)
  then have s': "\<exists>entry \<in> set (clients ?self).
      worker_returns_success (example_env (Reply (example_response True)))
        (available_models ?self) ''hello'' [] entry"
    by simp
  have sum: "create_intelligent_summary (example_env (Reply (example_response True))) default_models
         (collect_responses (example_env (Reply (example_response True))) ?self ''hello'' [])
       = ''answer''"
    by (simp add: create_intelligent_summary_def collect_responses_def List.map_filter_def
        process_client_request_def build_ai_request_def vision_flag_def sorted_reverse_def
        example_client_def example_env_def example_response_def)
  show ?thesis
    using dispatch_failure_or_summary [OF ne order given, of RpcError "''hello''"]
      dispatch_failure_or_summary [OF ne order given, of "Reply (example_response False)" "''hello''"]
      dispatch_failure_or_summary [OF ne order given, of "Reply (example_response True)" "''hello''"]
      f1 f2 s s' sum
    by simp
qed

text \<open>
  Claim C10. Every \<^verbatim>\<open>RegisterClient\<close> response with \<^verbatim>\<open>success=True\<close> carries
  \<^verbatim>\<open>client_group = 1\<close>, and every other response carries 0: the response is built
  from these two constants, and the index of the group of the worker never enters it.
\<close>

theorem registration_client_group:
  "(reg_success (snd (RegisterClient rnd now self request)) \<longrightarrow>
      client_group (snd (RegisterClient rnd now self request)) = 1) \<and>
   (\<not> reg_success (snd (RegisterClient rnd now self request)) \<longrightarrow>
      client_group (snd (RegisterClient rnd now self request)) = 0)"
  by (simp add: RegisterClient_def Let_def registration_failed_def
      split: sum.splits option.splits)

theorem registration_client_group_witness:
  "reg_success (snd (RegisterClient (\<lambda>i. 0) 0 \<lparr>clients = [], available_models = []\<rparr>
      example_registration)) \<and>
   client_group (snd (RegisterClient (\<lambda>i. 0) 0 \<lparr>clients = [], available_models = []\<rparr>
      example_registration)) = 1 \<and>
   \<not> reg_success (snd (RegisterClient (\<lambda>i. 0) 0 \<lparr>clients = three_clients, available_models = two_models\<rparr>
      example_registration)) \<and>
   client_group (snd (RegisterClient (\<lambda>i. 0) 0 \<lparr>clients = three_clients, available_models = two_models\<rparr>
      example_registration)) = 0"
proof -
  have ok: "reg_success (snd (RegisterClient (\<lambda>i. 0) 0 \<lparr>clients = [], available_models = []\<rparr>
      example_registration))"
    by code_simp
  have failed: "\<not> reg_success (snd (RegisterClient (\<lambda>i. 0) 0
      \<lparr>clients = three_clients, available_models = two_models\<rparr> example_registration))"
    by code_simp
  show ?thesis
    using ok failed
      registration_client_group [of "\<lambda>i. 0" 0 "\<lparr>clients = [], available_models = []\<rparr>"
        example_registration]
      registration_client_group [of "\<lambda>i. 0" 0
        "\<lparr>clients = three_clients, available_models = two_models\<rparr>" example_registration]
    by blast
qed

end
